theory Spec2Isabelle
  imports Main "HOL-Library.Sublist" "HOL-Library.AList"
begin

section \<open>JavaScript values used by the extension\<close>

text \<open>
  Strings are modelled as \<open>string\<close>, one \<open>char\<close> for each UTF-16 code unit: the model
  covers the texts whose code units are below 256. The code compares characters with
  ASCII characters only, except where it skips white space (\<open>trim\<close>, \<open>parseInt\<close>); of
  the white space characters, those below 256 are modelled.

  Numbers are modelled by \<open>jsnum\<close>: \<open>NaN\<close>, or an integer. The code only ever holds
  integers in the functions below; the model is exact as long as they stay within the
  range a double represents exactly (magnitude at most \<open>2 ^ 53\<close>).
\<close>

datatype jsnum = NaN | Num int

definition isDigit :: "char \<Rightarrow> bool" where
  "isDigit c = (c \<in> set ''0123456789'')"

definition isSep :: "char \<Rightarrow> bool" where
  \<comment> \<open>the character class \<open>[_-]\<close>\<close>
  "isSep c = (c = CHR ''_'' \<or> c = CHR ''-'')"

definition isWhiteSpace :: "char \<Rightarrow> bool" where
  \<comment> \<open>\<open>StrWhiteSpaceChar\<close> below 256: TAB, LF, VT, FF, CR, SP, NBSP\<close>
  "isWhiteSpace c = ((of_char c :: nat) \<in> {9, 10, 11, 12, 13, 32, 160})"

definition lowerAscii :: "char \<Rightarrow> char" where
  "lowerAscii c =
     (case map_of (zip ''ABCDEFGHIJKLMNOPQRSTUVWXYZ'' ''abcdefghijklmnopqrstuvwxyz'') c of
        Some l \<Rightarrow> l
      | None \<Rightarrow> c)"

text \<open>
  A literal of lower-case ASCII letters and punctuation matched under the \<open>i\<close> flag, at
  the start of the input: the rest of the input after the literal, if it matches.
\<close>

fun matchCI :: "string \<Rightarrow> string \<Rightarrow> string option" where
  "matchCI [] s = Some s"
| "matchCI (p # ps) [] = None"
| "matchCI (p # ps) (c # cs) = (if lowerAscii c = p then matchCI ps cs else None)"

definition digitVal :: "char \<Rightarrow> int" where
  "digitVal c = int (of_char c) - 48"

definition decimal :: "string \<Rightarrow> int" where
  "decimal ds = foldl (\<lambda>n c. 10 * n + digitVal c) 0 ds"

text \<open>
  \<open>parseInt(s, 10)\<close>: leading white space is skipped, one sign is read, then the longest
  run of decimal digits; anything after it is ignored, and no digit at all gives \<open>NaN\<close>.
\<close>

definition parseInt10 :: "string \<Rightarrow> jsnum" where
  "parseInt10 s =
     (let t = dropWhile isWhiteSpace s;
          neg = (t \<noteq> [] \<and> hd t = CHR ''-'');
          u = (if t \<noteq> [] \<and> (hd t = CHR ''-'' \<or> hd t = CHR ''+'') then tl t else t);
          z = takeWhile isDigit u
      in if z = [] then NaN else Num (if neg then - decimal z else decimal z))"

section \<open>Branch and remote parsing (src/git/repository.ts)\<close>

subsection \<open>extractPRNumberFromBranch\<close>

text \<open>
  Each regular expression of \<open>patterns\<close> becomes a function from the input to the text of
  its capture group 1, \<open>None\<close> when the expression does not match. \<open>searchFrom\<close> is the
  search of an expression that is not anchored with \<open>^\<close>: the first start position, from
  the left, at which it matches.
\<close>

definition captureDigits :: "string \<Rightarrow> string option" where
  \<comment> \<open>\<open>(\d+)\<close> with nothing after it: the longest run of digits, at least one\<close>
  "captureDigits s = (let d = takeWhile isDigit s in if d = [] then None else Some d)"

definition optSepThenDigits :: "string \<Rightarrow> string option" where
  \<comment> \<open>\<open>[_-]?(\d+)\<close>: the separator is tried first, then the match without it\<close>
  "optSepThenDigits s =
     (case (case s of c # cs \<Rightarrow> if isSep c then captureDigits cs else None | [] \<Rightarrow> None) of
        Some d \<Rightarrow> Some d
      | None \<Rightarrow> captureDigits s)"

fun searchFrom :: "(string \<Rightarrow> 'a option) \<Rightarrow> string \<Rightarrow> 'a option" where
  "searchFrom m [] = m []"
| "searchFrom m (c # cs) = (case m (c # cs) of Some r \<Rightarrow> Some r | None \<Rightarrow> searchFrom m cs)"

definition pattern1 :: "string \<Rightarrow> string option" where
  \<comment> \<open>\<open>/^pr[_-]?(\d+)/i\<close>\<close>
  "pattern1 s = (case matchCI ''pr'' s of Some r \<Rightarrow> optSepThenDigits r | None \<Rightarrow> None)"

definition pattern2 :: "string \<Rightarrow> string option" where
  \<comment> \<open>\<open>/^pull[_-]?(\d+)/i\<close>\<close>
  "pattern2 s = (case matchCI ''pull'' s of Some r \<Rightarrow> optSepThenDigits r | None \<Rightarrow> None)"

definition pattern3 :: "string \<Rightarrow> string option" where
  \<comment> \<open>\<open>/^(\d+)[_-]/\<close>: a shorter run of digits is followed by a digit, never by a separator\<close>
  "pattern3 s =
     (let d = takeWhile isDigit s; r = dropWhile isDigit s
      in if d \<noteq> [] \<and> r \<noteq> [] \<and> isSep (hd r) then Some d else None)"

definition pattern4 :: "string \<Rightarrow> string option" where
  \<comment> \<open>\<open>/[_-]pr[_-]?(\d+)/i\<close>\<close>
  "pattern4 = searchFrom (\<lambda>s. case s of
       c # cs \<Rightarrow> if isSep c then pattern1 cs else None
     | [] \<Rightarrow> None)"

definition pattern5 :: "string \<Rightarrow> string option" where
  \<comment> \<open>\<open>/[_-]pull[_-]?(\d+)/i\<close>\<close>
  "pattern5 = searchFrom (\<lambda>s. case s of
       c # cs \<Rightarrow> if isSep c then pattern2 cs else None
     | [] \<Rightarrow> None)"

fun firstMatch :: "(string \<Rightarrow> string option) list \<Rightarrow> string \<Rightarrow> string option" where
  "firstMatch [] s = None"
| "firstMatch (p # ps) s = (case p s of Some d \<Rightarrow> Some d | None \<Rightarrow> firstMatch ps s)"

definition extractPRNumberFromBranch :: "string \<Rightarrow> jsnum option" where
  "extractPRNumberFromBranch branchName =
     map_option parseInt10
       (firstMatch [pattern1, pattern2, pattern3, pattern4, pattern5] branchName)"

subsection \<open>parseGitRemoteUrl\<close>












section \<open>Comment threads (src/models/comment.ts, src/views/commentTreeProvider.ts)\<close>

subsection \<open>Sorting and dates\<close>

text \<open>
  \<open>Array.prototype.sort\<close> is stable. For a comparator that is a consistent ordering its
  result is the one sorted arrangement that keeps equal elements in their input order,
  and \<open>sortBy\<close> computes that arrangement by insertion. A \<open>NaN\<close> from the comparator
  counts as 0, as the language prescribes. For an inconsistent comparator the language
  leaves the order to the engine; the model's order is then one possible outcome.
\<close>

definition jsSub :: "jsnum \<Rightarrow> jsnum \<Rightarrow> jsnum" where
  "jsSub a b = (case (a, b) of (Num x, Num y) \<Rightarrow> Num (x - y) | _ \<Rightarrow> NaN)"

definition positive :: "jsnum \<Rightarrow> bool" where
  "positive v = (case v of NaN \<Rightarrow> False | Num n \<Rightarrow> 0 < n)"

fun insertBy :: "('a \<Rightarrow> 'a \<Rightarrow> jsnum) \<Rightarrow> 'a \<Rightarrow> 'a list \<Rightarrow> 'a list" where
  "insertBy cmp x [] = [x]"
| "insertBy cmp x (y # ys) =
     (if positive (cmp x y) then y # insertBy cmp x ys else x # y # ys)"

fun sortBy :: "('a \<Rightarrow> 'a \<Rightarrow> jsnum) \<Rightarrow> 'a list \<Rightarrow> 'a list" where
  "sortBy cmp [] = []"
| "sortBy cmp (x # xs) = insertBy cmp x (sortBy cmp xs)"

text \<open>
  \<open>new Date(s).getTime()\<close> belongs to the engine. The thread builder takes it as a
  parameter \<open>getTime\<close>, from the text of a timestamp to its time value in milliseconds
  (\<open>NaN\<close> for an invalid date). \<open>isoTime\<close> is that function on UTC timestamps of the
  form \<open>YYYY-MM-DDTHH:MM:SSZ\<close>, the form the hosting API sends; it is used for concrete
  inputs only and answers \<open>NaN\<close> on every other text.
\<close>

definition daysFromCivil :: "int \<Rightarrow> int \<Rightarrow> int \<Rightarrow> int" where
  \<comment> \<open>days from 1970-01-01 to the given day of the proleptic Gregorian calendar\<close>
  "daysFromCivil y m d =
     (let y' = (if m \<le> 2 then y - 1 else y);
          era = y' div 400;
          yoe = y' - era * 400;
          doy = (153 * (if 2 < m then m - 3 else m + 9) + 2) div 5 + d - 1;
          doe = yoe * 365 + yoe div 4 - yoe div 100 + doy
      in era * 146097 + doe - 719468)"

definition daysInMonth :: "int \<Rightarrow> int \<Rightarrow> int" where
  "daysInMonth y m =
     (if m = 2 then (if y mod 4 = 0 \<and> (y mod 100 \<noteq> 0 \<or> y mod 400 = 0) then 29 else 28)
      else if m \<in> {4, 6, 9, 11} then 30 else 31)"

definition isoTime :: "string \<Rightarrow> jsnum" where
  "isoTime s =
     (if length s = 20 \<and> list_all isDigit (take 4 s) \<and> s ! 4 = CHR ''-'' \<and>
         list_all isDigit (take 2 (drop 5 s)) \<and> s ! 7 = CHR ''-'' \<and>
         list_all isDigit (take 2 (drop 8 s)) \<and> s ! 10 = CHR ''T'' \<and>
         list_all isDigit (take 2 (drop 11 s)) \<and> s ! 13 = CHR '':'' \<and>
         list_all isDigit (take 2 (drop 14 s)) \<and> s ! 16 = CHR '':'' \<and>
         list_all isDigit (take 2 (drop 17 s)) \<and> s ! 19 = CHR ''Z''
      then
        (let y = decimal (take 4 s); m = decimal (take 2 (drop 5 s));
             d = decimal (take 2 (drop 8 s)); h = decimal (take 2 (drop 11 s));
             mi = decimal (take 2 (drop 14 s)); sec = decimal (take 2 (drop 17 s))
         in if 1 \<le> m \<and> m \<le> 12 \<and> 1 \<le> d \<and> d \<le> daysInMonth y m \<and>
               h \<le> 23 \<and> mi \<le> 59 \<and> sec \<le> 59
            then Num ((((daysFromCivil y m d * 24 + h) * 60 + mi) * 60 + sec) * 1000)
            else NaN)
      else NaN)"

subsection \<open>Data model\<close>

text \<open>
  \<open>PRComment\<close> and \<open>CommentThread\<close> share field names in the source; the thread's fields
  carry the prefix \<open>thread_\<close> here, and \<open>id\<close> of a comment is \<open>comment_id\<close>; the fields
  \<open>resolved\<close> and \<open>file\<close> of \<open>FilterOptions\<close> carry the prefix \<open>filter_\<close>. An optional
  field is an \<open>option\<close>. The optional field \<open>replies\<close> of \<open>PRComment\<close> is never read or
  written by the code below and is left out.
\<close>

record PRComment =
  path :: string
  line :: int
  body :: string
  user :: string
  comment_id :: int
  createdAt :: "string option"
  updatedAt :: "string option"
  inReplyToId :: "int option"
  resolved :: "bool option"
  diffHunk :: "string option"
  commitId :: "string option"
  authorAssociation :: "string option"

record CommentThread =
  thread_id :: int
  thread_path :: string
  thread_line :: int
  rootComment :: PRComment
  replies :: "PRComment list"
  thread_resolved :: bool
  participants :: "string list"

record FilterOptions =
  reviewer :: "string option"
  filter_resolved :: "bool option"
  filter_file :: "string option"

subsection \<open>buildThreads\<close>

definition isReply :: "PRComment \<Rightarrow> bool" where
  \<comment> \<open>\<open>if (comment.inReplyToId)\<close>: a number is truthy unless it is 0\<close>
  "isReply c = (case inReplyToId c of None \<Rightarrow> False | Some n \<Rightarrow> n \<noteq> 0)"

definition replyKey :: "PRComment \<Rightarrow> int" where
  \<comment> \<open>the key \<open>comment.inReplyToId\<close> of a reply in \<open>replyMap\<close>\<close>
  "replyKey c = (case inReplyToId c of None \<Rightarrow> 0 | Some n \<Rightarrow> n)"

definition newThread :: "PRComment \<Rightarrow> CommentThread" where
  "newThread c =
     \<lparr>thread_id = comment_id c, thread_path = path c, thread_line = line c,
      rootComment = c, replies = [],
      thread_resolved = (case resolved c of None \<Rightarrow> False | Some b \<Rightarrow> b),
      participants = [user c]\<rparr>"

text \<open>
  The two \<open>Map\<close>s are association lists with distinct keys, in insertion order:
  \<open>AList.update\<close> replaces the value of a key that is present, in place, and appends a
  new key at the end, as \<open>Map.prototype.set\<close> does.
\<close>

definition firstPassStep ::
  "PRComment \<Rightarrow> (int \<times> CommentThread) list \<times> (int \<times> PRComment list) list \<Rightarrow>
   (int \<times> CommentThread) list \<times> (int \<times> PRComment list) list" where
  "firstPassStep c maps =
     (case maps of (threadMap, replyMap) \<Rightarrow>
        if isReply c then
          (let rs = (case map_of replyMap (replyKey c) of None \<Rightarrow> [] | Some rs \<Rightarrow> rs)
           in (threadMap, AList.update (replyKey c) (rs @ [c]) replyMap))
        else (AList.update (comment_id c) (newThread c) threadMap, replyMap))"

definition timeOf :: "(string \<Rightarrow> jsnum) \<Rightarrow> PRComment \<Rightarrow> jsnum" where
  \<comment> \<open>\<open>new Date(c.createdAt || 0).getTime()\<close>\<close>
  "timeOf getTime c =
     (case createdAt c of None \<Rightarrow> Num 0 | Some s \<Rightarrow> if s = [] then Num 0 else getTime s)"

definition byCreation :: "(string \<Rightarrow> jsnum) \<Rightarrow> PRComment \<Rightarrow> PRComment \<Rightarrow> jsnum" where
  "byCreation getTime a b = jsSub (timeOf getTime a) (timeOf getTime b)"

definition addParticipant :: "PRComment \<Rightarrow> string list \<Rightarrow> string list" where
  "addParticipant reply ps = (if user reply \<in> set ps then ps else ps @ [user reply])"

definition attachReplies ::
  "(string \<Rightarrow> jsnum) \<Rightarrow> PRComment list \<Rightarrow> CommentThread \<Rightarrow> CommentThread" where
  "attachReplies getTime rs thread =
     (let sorted = sortBy (byCreation getTime) rs
      in thread\<lparr>replies := sorted,
                participants := fold addParticipant sorted (participants thread)\<rparr>)"

definition secondPassStep ::
  "(string \<Rightarrow> jsnum) \<Rightarrow> int \<times> PRComment list \<Rightarrow>
   (int \<times> CommentThread) list \<Rightarrow> (int \<times> CommentThread) list" where
  "secondPassStep getTime entry threadMap =
     (case entry of (rootId, rs) \<Rightarrow>
        (case map_of threadMap rootId of
           None \<Rightarrow> threadMap
         | Some thread \<Rightarrow> AList.update rootId (attachReplies getTime rs thread) threadMap))"

definition byLine :: "CommentThread \<Rightarrow> CommentThread \<Rightarrow> jsnum" where
  "byLine a b = Num (thread_line a - thread_line b)"

definition buildThreads :: "(string \<Rightarrow> jsnum) \<Rightarrow> PRComment list \<Rightarrow> CommentThread list" where
  "buildThreads getTime comments =
     (case fold firstPassStep comments ([], []) of (threadMap, replyMap) \<Rightarrow>
        sortBy byLine (map snd (fold (secondPassStep getTime) replyMap threadMap)))"

subsection \<open>Filtered views and counts\<close>

record FileItem =
  filePath :: string
  threads :: "CommentThread list"
  commentCount :: int

record CommentTreeProvider =
  provider_threads :: "(string \<times> CommentThread list) list"
  filterOptions :: FilterOptions

fun includesStr :: "string \<Rightarrow> string \<Rightarrow> bool" where
  \<comment> \<open>\<open>s.includes(sub)\<close>\<close>
  "includesStr [] sub = (sub = [])"
| "includesStr (c # cs) sub = (prefix sub (c # cs) \<or> includesStr cs sub)"

definition keepThread :: "FilterOptions \<Rightarrow> CommentThread \<Rightarrow> bool" where
  \<comment> \<open>the callback of \<open>filterThreads\<close>; an empty reviewer name is falsy and filters nothing\<close>
  "keepThread opts thread =
     (if (case reviewer opts of None \<Rightarrow> False
          | Some r \<Rightarrow> r \<noteq> [] \<and> r \<notin> set (participants thread)) then False
      else if (case filter_resolved opts of None \<Rightarrow> False
               | Some b \<Rightarrow> thread_resolved thread \<noteq> b) then False
      else True)"

definition filterThreads :: "FilterOptions \<Rightarrow> CommentThread list \<Rightarrow> CommentThread list" where
  "filterThreads opts ts = filter (keepThread opts) ts"

definition keepFile :: "FilterOptions \<Rightarrow> string \<Rightarrow> bool" where
  \<comment> \<open>the file filter of \<open>getFileItems\<close>\<close>
  "keepFile opts p = (case filter_file opts of None \<Rightarrow> True | Some f \<Rightarrow> f = [] \<or> includesStr p f)"

definition countComments :: "CommentThread list \<Rightarrow> int" where
  \<comment> \<open>\<open>reduce((sum, t) => sum + 1 + t.replies.length, 0)\<close>\<close>
  "countComments ts = foldl (\<lambda>sum t. sum + 1 + int (length (replies t))) 0 ts"

definition fileItemStep ::
  "FilterOptions \<Rightarrow> string \<times> CommentThread list \<Rightarrow> FileItem list \<Rightarrow> FileItem list" where
  "fileItemStep opts entry items =
     (case entry of (p, fileThreads) \<Rightarrow>
        (let filteredThreads = filterThreads opts fileThreads
         in if filteredThreads = [] then items
            else if \<not> keepFile opts p then items
            else items @ [\<lparr>filePath = p, threads = filteredThreads,
                           commentCount = countComments filteredThreads\<rparr>]))"

definition getFileItems :: "(string \<Rightarrow> string \<Rightarrow> int) \<Rightarrow> CommentTreeProvider \<Rightarrow> FileItem list" where
  \<comment> \<open>\<open>localeCompare\<close> belongs to the engine and is a parameter\<close>
  "getFileItems localeCompare this =
     sortBy (\<lambda>a b. Num (localeCompare (filePath a) (filePath b)))
       (fold (fileItemStep (filterOptions this)) (provider_threads this) [])"

definition getTotalCommentCount :: "CommentTreeProvider \<Rightarrow> int" where
  "getTotalCommentCount this =
     fold (\<lambda>ts count. fold (\<lambda>thread count. count + 1 + int (length (replies thread))) ts count)
       (map snd (provider_threads this)) 0"

definition getThreadCount :: "CommentTreeProvider \<Rightarrow> int" where
  "getThreadCount this =
     fold (\<lambda>ts count. count + int (length ts)) (map snd (provider_threads this)) 0"

definition setComments ::
  "(string \<Rightarrow> jsnum) \<Rightarrow> (string \<times> PRComment list) list \<Rightarrow> CommentTreeProvider \<Rightarrow>
   CommentTreeProvider" where
  \<comment> \<open>the set of reviewers the source also collects is not part of the counts or views\<close>
  "setComments getTime commentsByFile this =
     this\<lparr>provider_threads :=
       fold (\<lambda>(p, comments) m. AList.update p (buildThreads getTime comments) m)
         commentsByFile []\<rparr>"

section \<open>The retrying fetch client (src/github/client.ts, src/utils/config.ts)\<close>

subsection \<open>validateToken\<close>

definition validPrefixes :: "string list" where
  "validPrefixes = [''ghp_'', ''github_pat_'', ''gho_'', ''ghu_'', ''ghs_'', ''ghr_'']"

definition hasValidPrefix :: "string \<Rightarrow> bool" where
  \<comment> \<open>\<open>validPrefixes.some(prefix => token.startsWith(prefix))\<close>\<close>
  "hasValidPrefix token = list_ex (\<lambda>p. prefix p token) validPrefixes"

record validation =
  valid :: bool
  message :: "string option"

definition validateToken :: "string \<Rightarrow> validation" where
  \<comment> \<open>\<open>token.trim()\<close> is empty when every character of the token is white space\<close>
  "validateToken token =
     (if token = [] \<or> list_all isWhiteSpace token then
        \<lparr>valid = False, message = Some ''GitHub token is empty''\<rparr>
      else if \<not> hasValidPrefix token \<and> length token < 20 then
        \<lparr>valid = False, message = Some ''Token appears too short to be valid''\<rparr>
      else \<lparr>valid = True, message = None\<rparr>)"

subsection \<open>calculateRetryDelay\<close>

definition MAX_RETRIES :: nat where
  "MAX_RETRIES = 3"

definition INITIAL_RETRY_DELAY_MS :: int where
  "INITIAL_RETRY_DELAY_MS = 1000"

definition calculateRetryDelay :: "nat \<Rightarrow> string option \<Rightarrow> int" where
  \<comment> \<open>\<open>if (retryAfter)\<close>: an absent or empty text is falsy\<close>
  "calculateRetryDelay attempt retryAfter =
     (let backoff = INITIAL_RETRY_DELAY_MS * 2 ^ attempt in
      case retryAfter of
        None \<Rightarrow> backoff
      | Some s \<Rightarrow>
          if s = [] then backoff
          else (case parseInt10 s of NaN \<Rightarrow> backoff | Num seconds \<Rightarrow> seconds * 1000))"

subsection \<open>Requests, responses and results\<close>

text \<open>
  A record of the listing, with the fields the client reads. \<open>api_line\<close> is \<open>None\<close> for
  \<open>undefined\<close> or \<open>null\<close>, \<open>api_login\<close> is \<open>None\<close> when the record has no user.
\<close>

record ApiComment =
  api_path :: string
  api_line :: "int option"
  api_body :: "string option"
  api_login :: "string option"
  api_id :: int
  created_at :: string
  updated_at :: string
  in_reply_to_id :: "int option"
  diff_hunk :: string
  commit_id :: string
  author_association :: string

record Headers =
  x_ratelimit_remaining :: "string option"
  x_ratelimit_reset :: "string option"

text \<open>
  What a rejected request throws: whether the thrown value is an object
  (\<open>isGitHubError\<close>), its \<open>status\<close>, its \<open>retry-after\<close> header, and the text that
  \<open>lastError.message\<close> holds after the \<open>catch\<close>.
\<close>

record Thrown =
  isObject :: bool
  status :: "int option"
  retryAfter :: "string option"
  errorText :: string

datatype Response = Listed "ApiComment list" Headers | Rejected Thrown

record FetchResult =
  success :: bool
  comments :: "PRComment list"
  error :: "string option"
  rateLimitRemaining :: "jsnum option"
  rateLimitReset :: "jsnum option"

text \<open>
  The effects of a fetch, in order: the requests sent (with the number of the attempt)
  and the waits (in milliseconds). Log entries are not recorded.
\<close>

datatype Effect = Request nat | Sleep int

fun digitsOf :: "nat \<Rightarrow> string" where
  "digitsOf n =
     (if n < 10 then [''0123456789'' ! n] else digitsOf (n div 10) @ [''0123456789'' ! (n mod 10)])"

definition numberToString :: "int \<Rightarrow> string" where
  \<comment> \<open>\<open>`${n}`\<close> for an integer of magnitude below \<open>10 ^ 21\<close>\<close>
  "numberToString n = (if n < 0 then CHR ''-'' # digitsOf (nat (- n)) else digitsOf (nat n))"

definition failure :: "string \<Rightarrow> FetchResult" where
  "failure msg =
     \<lparr>success = False, comments = [], error = Some msg,
      rateLimitRemaining = None, rateLimitReset = None\<rparr>"

definition toPRComment :: "ApiComment \<Rightarrow> PRComment" where
  "toPRComment c =
     \<lparr>path = api_path c,
      line = (case api_line c of Some l \<Rightarrow> l | None \<Rightarrow> 0),
      body = (case api_body c of Some b \<Rightarrow> b | None \<Rightarrow> []),
      user = (case api_login c of Some u \<Rightarrow> if u \<noteq> [] then u else ''Unknown''
              | None \<Rightarrow> ''Unknown''),
      comment_id = api_id c,
      createdAt = Some (created_at c),
      updatedAt = Some (updated_at c),
      inReplyToId = in_reply_to_id c,
      resolved = None,
      diffHunk = Some (diff_hunk c),
      commitId = Some (commit_id c),
      authorAssociation = Some (author_association c)\<rparr>"

definition jsTimes1000 :: "jsnum \<Rightarrow> jsnum" where
  "jsTimes1000 v = (case v of Num n \<Rightarrow> Num (n * 1000) | NaN \<Rightarrow> NaN)"

definition listed :: "ApiComment list \<Rightarrow> Headers \<Rightarrow> FetchResult" where
  \<comment> \<open>the result of an attempt that succeeds; \<open>rateLimitReset\<close> is the time value of the date\<close>
  "listed data headers =
     \<lparr>success = True,
      comments = map toPRComment
        (filter (\<lambda>c. api_path c \<noteq> [] \<and> api_line c \<noteq> None) data),
      error = None,
      rateLimitRemaining =
        (case x_ratelimit_remaining headers of
           Some s \<Rightarrow> if s \<noteq> [] then Some (parseInt10 s) else None
         | None \<Rightarrow> None),
      rateLimitReset =
        (case x_ratelimit_reset headers of
           Some s \<Rightarrow> if s \<noteq> [] then Some (jsTimes1000 (parseInt10 s)) else None
         | None \<Rightarrow> None)\<rparr>"

subsection \<open>fetchPRCommentsWithRetry\<close>

text \<open>
  The loop over the attempts. \<open>api\<close> answers the request of each attempt;
  \<open>lastError\<close> is the message of the error caught last; \<open>trace\<close> collects the effects.
  A rate-limited or failed-server attempt waits also when it is the last attempt; any
  other failure waits only when an attempt is left.
\<close>

function attempts ::
  "string \<Rightarrow> string \<Rightarrow> int \<Rightarrow> (nat \<Rightarrow> Response) \<Rightarrow> nat \<Rightarrow> string option \<Rightarrow> Effect list \<Rightarrow>
   FetchResult \<times> Effect list" where
  "attempts owner' repo' prNumber api attempt lastError trace =
     (if attempt < MAX_RETRIES then
        (case api attempt of
           Listed data headers \<Rightarrow> (listed data headers, trace @ [Request attempt])
         | Rejected e \<Rightarrow>
             (if isObject e \<and> status e = Some 401 then
                (failure ''Authentication failed. Please check your GitHub token.'',
                 trace @ [Request attempt])
              else if isObject e \<and> status e = Some 404 then
                (failure (''PR #'' @ numberToString prNumber @ '' not found in '' @ owner' @
                          ''/'' @ repo' @ ''. Check the PR number and repository.''),
                 trace @ [Request attempt])
              else if isObject e \<and> (status e = Some 403 \<or> status e = Some 429) then
                attempts owner' repo' prNumber api (Suc attempt) (Some (errorText e))
                  (trace @ [Request attempt, Sleep (calculateRetryDelay attempt (retryAfter e))])
              else if isObject e \<and> (case status e of Some s \<Rightarrow> s \<noteq> 0 \<and> 500 \<le> s | None \<Rightarrow> False) then
                attempts owner' repo' prNumber api (Suc attempt) (Some (errorText e))
                  (trace @ [Request attempt, Sleep (calculateRetryDelay attempt None)])
              else if attempt < MAX_RETRIES - 1 then
                attempts owner' repo' prNumber api (Suc attempt) (Some (errorText e))
                  (trace @ [Request attempt, Sleep (calculateRetryDelay attempt None)])
              else
                attempts owner' repo' prNumber api (Suc attempt) (Some (errorText e))
                  (trace @ [Request attempt])))
      else
        (failure (case lastError of
                    Some m \<Rightarrow> if m \<noteq> [] then m
                              else ''Failed to fetch PR comments after multiple attempts''
                  | None \<Rightarrow> ''Failed to fetch PR comments after multiple attempts''),
         trace))"
  by pat_completeness auto
termination
  by (relation "measure (\<lambda>(owner', repo', prNumber, api, attempt, lastError, trace).
        MAX_RETRIES - attempt)") auto

declare attempts.simps [simp del]

definition authTokenOf :: "string option \<Rightarrow> string \<Rightarrow> string" where
  \<comment> \<open>\<open>token || config.githubToken\<close>\<close>
  "authTokenOf token githubToken =
     (case token of Some t \<Rightarrow> if t \<noteq> [] then t else githubToken | None \<Rightarrow> githubToken)"

definition fetchPRCommentsWithRetry ::
  "string \<Rightarrow> (nat \<Rightarrow> Response) \<Rightarrow> string \<Rightarrow> string \<Rightarrow> int \<Rightarrow> string option \<Rightarrow>
   FetchResult \<times> Effect list" where
  \<comment> \<open>the first two arguments are \<open>getConfig().githubToken\<close> and the hosting API\<close>
  "fetchPRCommentsWithRetry githubToken api owner' repo' prNumber token =
     (let authToken = authTokenOf token githubToken in
      if authToken = [] then
        (failure ''GitHub token is not configured. Please set prComments.githubToken in settings.'',
         [])
      else if \<not> valid (validateToken authToken) then
        (\<lparr>success = False, comments = [], error = message (validateToken authToken),
          rateLimitRemaining = None, rateLimitReset = None\<rparr>, [])
      else attempts owner' repo' prNumber api 0 None [])"

section \<open>Notions used to state the properties\<close>

subsection \<open>Threads\<close>

definition lastRoot :: "PRComment list \<Rightarrow> int \<Rightarrow> PRComment option" where
  \<comment> \<open>the last comment of the list that is no reply and has the given id\<close>
  "lastRoot cs k = List.find (\<lambda>c. \<not> isReply c \<and> comment_id c = k) (rev cs)"

definition repliesTo :: "PRComment list \<Rightarrow> int \<Rightarrow> PRComment list" where
  \<comment> \<open>the replies of the list to the given id, in input order\<close>
  "repliesTo cs k = filter (\<lambda>c. isReply c \<and> replyKey c = k) cs"


definition firstOccurrences :: "'a list \<Rightarrow> 'a list" where
  \<comment> \<open>the list with every element kept at its first position only\<close>
  "firstOccurrences xs = rev (remdups (rev xs))"

definition timeValue :: "(string \<Rightarrow> jsnum) \<Rightarrow> PRComment \<Rightarrow> int" where
  \<comment> \<open>the time value a comment is sorted by, when it is a number\<close>
  "timeValue getTime c = (case timeOf getTime c of Num v \<Rightarrow> v | NaN \<Rightarrow> 0)"

definition noTimestamp :: "PRComment \<Rightarrow> bool" where
  "noTimestamp c = (createdAt c = None \<or> createdAt c = Some [])"

definition threadMapOf :: "PRComment list \<Rightarrow> (int \<times> CommentThread) list" where
  \<comment> \<open>\<open>threadMap\<close> after the first pass\<close>
  "threadMapOf cs = fst (fold firstPassStep cs ([], []))"

definition replyMapOf :: "PRComment list \<Rightarrow> (int \<times> PRComment list) list" where
  \<comment> \<open>\<open>replyMap\<close> after the first pass\<close>
  "replyMapOf cs = snd (fold firstPassStep cs ([], []))"

definition attachAll ::
  "(string \<Rightarrow> jsnum) \<Rightarrow> (int \<times> PRComment list) list \<Rightarrow> int \<times> CommentThread \<Rightarrow>
   int \<times> CommentThread" where
  \<comment> \<open>what the second pass makes of one entry of \<open>threadMap\<close>\<close>
  "attachAll getTime rm e =
     (fst e, case map_of rm (fst e) of None \<Rightarrow> snd e
             | Some rs \<Rightarrow> attachReplies getTime rs (snd e))"

definition finalThread :: "(string \<Rightarrow> jsnum) \<Rightarrow> PRComment list \<Rightarrow> PRComment \<Rightarrow> CommentThread" where
  \<comment> \<open>the thread of a root comment, with the replies of the list attached\<close>
  "finalThread getTime cs c = attachReplies getTime (repliesTo cs (comment_id c)) (newThread c)"

subsection \<open>Filtered views\<close>

definition visibleEntry :: "FilterOptions \<Rightarrow> string \<times> CommentThread list \<Rightarrow> bool" where
  \<comment> \<open>the files that \<open>getFileItems\<close> does not skip\<close>
  "visibleEntry opts e = (filterThreads opts (snd e) \<noteq> [] \<and> keepFile opts (fst e))"

definition itemOf :: "FilterOptions \<Rightarrow> string \<times> CommentThread list \<Rightarrow> FileItem" where
  \<comment> \<open>the item that \<open>getFileItems\<close> makes of a file it shows\<close>
  "itemOf opts e =
     \<lparr>filePath = fst e, threads = filterThreads opts (snd e),
      commentCount = countComments (filterThreads opts (snd e))\<rparr>"

subsection \<open>Rejected attempts\<close>



subsection \<open>Concrete inputs\<close>

definition comment :: "int \<Rightarrow> string \<Rightarrow> int \<Rightarrow> int option \<Rightarrow> string option \<Rightarrow> PRComment" where
  \<comment> \<open>a comment with the given id, author, line, parent and creation time\<close>
  "comment i u l parent created =
     \<lparr>path = ''src/index.ts'', line = l, body = ''Comment'', user = u, comment_id = i,
      createdAt = created, updatedAt = None, inReplyToId = parent, resolved = None,
      diffHunk = None, commitId = None, authorAssociation = None\<rparr>"

definition scenario :: "PRComment list" where
  \<comment> \<open>one root comment and two replies to it\<close>
  "scenario =
     [comment 1 ''a'' 10 None None,
      comment 2 ''b'' 10 (Some 1) None,
      comment 3 ''a'' 10 (Some 1) None]"

definition timedReplies :: "PRComment list" where
  \<comment> \<open>replies given out of order, one of them without a timestamp\<close>
  "timedReplies =
     [comment 1 ''a'' 10 None (Some ''2024-01-15T10:00:00Z''),
      comment 2 ''b'' 10 (Some 1) (Some ''2024-01-15T12:00:00Z''),
      comment 3 ''c'' 10 (Some 1) None,
      comment 4 ''d'' 10 (Some 1) (Some ''2024-01-15T11:00:00Z'')]"

definition preEpochReplies :: "PRComment list" where
  \<comment> \<open>a reply without a timestamp, then a reply dated one second before the epoch\<close>
  "preEpochReplies =
     [comment 1 ''a'' 10 None None,
      comment 2 ''b'' 10 (Some 1) None,
      comment 3 ''c'' 10 (Some 1) (Some ''1969-12-31T23:59:59Z'')]"



definition sharedRootId :: "PRComment list" where
  \<comment> \<open>two root comments with the id 1\<close>
  "sharedRootId =
     [comment 1 ''a'' 10 None None,
      comment 2 ''b'' 20 None None,
      comment 1 ''z'' 10 None None]"

definition thread :: "int \<Rightarrow> string \<Rightarrow> bool \<Rightarrow> PRComment list \<Rightarrow> CommentThread" where
  \<comment> \<open>a thread with the given id, root author, resolved flag and replies\<close>
  "thread i u r rs =
     \<lparr>thread_id = i, thread_path = ''src/index.ts'', thread_line = 10,
      rootComment = comment i u 10 None None, replies = rs, thread_resolved = r,
      participants = u # map user rs\<rparr>"

definition twoFiles :: "(string \<times> CommentThread list) list" where
  \<comment> \<open>two files: a thread with one reply and a resolved thread; one thread\<close>
  "twoFiles =
     [(''src/index.ts'',
        [thread 1 ''alice'' False [comment 2 ''bob'' 10 (Some 1) None],
         thread 3 ''bob'' True []]),
      (''src/utils.ts'', [thread 4 ''alice'' False []])]"

definition noFilter :: FilterOptions where
  "noFilter = \<lparr>reviewer = None, filter_resolved = None, filter_file = None\<rparr>"

definition byReviewer :: "string \<Rightarrow> FilterOptions" where
  "byReviewer r = \<lparr>reviewer = Some r, filter_resolved = None, filter_file = None\<rparr>"

definition lengthCompare :: "string \<Rightarrow> string \<Rightarrow> int" where
  \<comment> \<open>a comparison of two texts, in the place of \<open>localeCompare\<close> on concrete inputs\<close>
  "lengthCompare a b = int (length a) - int (length b)"

definition provider :: "FilterOptions \<Rightarrow> CommentTreeProvider" where
  \<comment> \<open>a provider that holds the two files, with the given active filter\<close>
  "provider opts = \<lparr>provider_threads = twoFiles, filterOptions = opts\<rparr>"

definition rejection :: "int option \<Rightarrow> nat \<Rightarrow> Response" where
  \<comment> \<open>an API that rejects every request with the given status\<close>
  "rejection s n =
     Rejected \<lparr>isObject = True, status = s, retryAfter = None, errorText = ''Request failed''\<rparr>"

definition serverErrorThen :: "int \<Rightarrow> nat \<Rightarrow> Response" where
  \<comment> \<open>an API that fails with the status 500 once, then rejects with the given status\<close>
  "serverErrorThen s n = (if n = 0 then rejection (Some 500) n else rejection (Some s) n)"


section \<open>Properties of the branch and remote parsers\<close>

subsection \<open>extractPRNumberFromBranch\<close>

lemma pattern3_capture:
  assumes "pattern3 b = Some d"
  shows "d \<noteq> [] \<and> list_all isDigit d \<and> (\<exists>sep rest. b = d @ sep # rest \<and> isSep sep)"
proof -
  let ?r = "dropWhile isDigit b"
  from assms have d: "d = takeWhile isDigit b" and ne: "d \<noteq> []" and r: "?r \<noteq> []" and s: "isSep (hd ?r)"
    by (auto simp: pattern3_def Let_def split: if_splits)
  have "b = d @ hd ?r # tl ?r" using d r by simp
  moreover have "list_all isDigit d" unfolding d list_all_iff by (auto dest: set_takeWhileD)
  ultimately show ?thesis using ne s by blast
qed

lemmas ex_defs = extractPRNumberFromBranch_def pattern1_def pattern2_def pattern3_def pattern4_def pattern5_def
   parseInt10_def isDigit_def isSep_def isWhiteSpace_def lowerAscii_def captureDigits_def optSepThenDigits_def decimal_def digitVal_def

text \<open>
  Claim C7. The branch-name extractor returns 123 for \<open>pr-123\<close> and \<open>PR-123\<close>, 456 for
  \<open>pull_456\<close>, 789 for \<open>789-feature-name\<close>, 42 for \<open>feature-pr-42\<close>, and no match for
  \<open>main\<close> and \<open>node-20-upgrade\<close>. In general, whatever the third pattern captures is a
  non-empty run of digits that starts the branch name and is immediately followed by a
  separator: a run of digits elsewhere, or one not followed by a separator, is never its
  match.
\<close>

theorem extractPRNumberFromBranch_examples:
  "extractPRNumberFromBranch ''pr-123'' = Some (Num 123) \<and>
   extractPRNumberFromBranch ''PR-123'' = Some (Num 123) \<and>
   extractPRNumberFromBranch ''pull_456'' = Some (Num 456) \<and>
   extractPRNumberFromBranch ''789-feature-name'' = Some (Num 789) \<and>
   extractPRNumberFromBranch ''feature-pr-42'' = Some (Num 42) \<and>
   extractPRNumberFromBranch ''main'' = None \<and>
   extractPRNumberFromBranch ''node-20-upgrade'' = None \<and>
   pattern3 ''node-20-upgrade'' = None \<and>
   (\<forall>b d. pattern3 b = Some d \<longrightarrow>
      d \<noteq> [] \<and> list_all isDigit d \<and> (\<exists>sep rest. b = d @ sep # rest \<and> isSep sep))"
proof -
  have 1: "extractPRNumberFromBranch ''pr-123'' = Some (Num 123)" by (simp add: ex_defs)
  have 2: "extractPRNumberFromBranch ''PR-123'' = Some (Num 123)" by (simp add: ex_defs)
  have 3: "extractPRNumberFromBranch ''pull_456'' = Some (Num 456)" by (simp add: ex_defs)
  have 4: "extractPRNumberFromBranch ''789-feature-name'' = Some (Num 789)" by (simp add: ex_defs)
  have 5: "extractPRNumberFromBranch ''feature-pr-42'' = Some (Num 42)" by (simp add: ex_defs)
  have 6: "extractPRNumberFromBranch ''main'' = None" by (simp add: ex_defs)
  have 7: "extractPRNumberFromBranch ''node-20-upgrade'' = None" by (simp add: ex_defs)
  have 8: "pattern3 ''node-20-upgrade'' = None" by (simp add: ex_defs)
  show ?thesis using 1 2 3 4 5 6 7 8 pattern3_capture by blast
qed

theorem extractPRNumberFromBranch_examples_witness:
  "pattern3 ''789-feature-name'' = Some ''789'' \<and>
   (\<exists>sep rest. ''789-feature-name'' = ''789'' @ sep # rest \<and> isSep sep)"
proof -
  have m: "pattern3 ''789-feature-name'' = Some ''789''" by (simp add: ex_defs)
  from extractPRNumberFromBranch_examples
  have "pattern3 ''789-feature-name'' = Some ''789'' \<longrightarrow>
      ''789'' \<noteq> [] \<and> list_all isDigit ''789'' \<and>
      (\<exists>sep rest. ''789-feature-name'' = ''789'' @ sep # rest \<and> isSep sep)"
    by blast
  with m show ?thesis by blast
qed

subsection \<open>parseGitRemoteUrl\<close>






















section \<open>Properties of the thread builder\<close>

subsection \<open>The stable sort\<close>

lemma set_insertBy: "set (insertBy cmp x ys) = insert x (set ys)"
  by (induction ys) auto

lemma set_sortBy: "set (sortBy cmp xs) = set xs"
  by (induction xs) (simp_all add: set_insertBy)

lemma length_insertBy: "length (insertBy cmp x ys) = Suc (length ys)"
  by (induction ys) auto

lemma length_sortBy: "length (sortBy cmp xs) = length xs"
  by (induction xs) (simp_all add: length_insertBy)

lemma sum_insertBy: "sum_list (map f (insertBy cmp x ys)) = (f x :: int) + sum_list (map f ys)"
  by (induction ys) auto

lemma sum_sortBy: "sum_list (map f (sortBy cmp xs)) = (sum_list (map f xs) :: int)"
  by (induction xs) (simp_all add: sum_insertBy)

lemma distinct_map_insertBy:
  "distinct (map f (insertBy cmp x ys)) = (f x \<notin> f ` set ys \<and> distinct (map f ys))"
  by (induction ys) (auto simp: set_insertBy)

lemma distinct_map_sortBy: "distinct (map f (sortBy cmp xs)) = distinct (map f xs)"
  by (induction xs) (simp_all add: distinct_map_insertBy set_sortBy)

lemma sorted_insertBy:
  assumes "\<And>y. y \<in> set ys \<Longrightarrow> positive (cmp x y) = (k y < (k x :: int))"
    and "sorted (map k ys)"
  shows "sorted (map k (insertBy cmp x ys))"
  using assms
proof (induction ys)
  case Nil
  then show ?case by simp
next
  case (Cons y ys)
  show ?case
  proof (cases "positive (cmp x y)")
    case True
    with Cons.prems(1)[of y] have lt: "k y < k x" by simp
    have "sorted (map k (insertBy cmp x ys))"
      using Cons.IH Cons.prems by simp
    moreover have "\<forall>z\<in>set (insertBy cmp x ys). k y \<le> k z"
      using lt Cons.prems(2) by (auto simp: set_insertBy)
    ultimately show ?thesis using True by simp
  next
    case False
    with Cons.prems(1)[of y] have "k x \<le> k y" by simp
    with Cons.prems(2) False show ?thesis by auto
  qed
qed

lemma sorted_sortBy:
  assumes "\<And>x y. x \<in> set xs \<Longrightarrow> y \<in> set xs \<Longrightarrow> positive (cmp x y) = (k y < (k x :: int))"
  shows "sorted (map k (sortBy cmp xs))"
  using assms
proof (induction xs)
  case Nil
  then show ?case by simp
next
  case (Cons x xs)
  have "sorted (map k (sortBy cmp xs))" using Cons by simp
  moreover have "\<And>y. y \<in> set (sortBy cmp xs) \<Longrightarrow> positive (cmp x y) = (k y < k x)"
    using Cons.prems by (simp add: set_sortBy)
  ultimately show ?case by (simp add: sorted_insertBy)
qed

subsection \<open>The first pass\<close>

lemma threadMapOf_Nil: "threadMapOf [] = []"
  by (simp add: threadMapOf_def)

lemma replyMapOf_Nil: "replyMapOf [] = []"
  by (simp add: replyMapOf_def)

lemma threadMapOf_snoc:
  "threadMapOf (cs @ [c]) =
     (if isReply c then threadMapOf cs
      else AList.update (comment_id c) (newThread c) (threadMapOf cs))"
  by (simp add: threadMapOf_def firstPassStep_def Let_def split: prod.splits)

lemma replyMapOf_snoc:
  "replyMapOf (cs @ [c]) =
     (if isReply c then
        AList.update (replyKey c)
          ((case map_of (replyMapOf cs) (replyKey c) of None \<Rightarrow> [] | Some rs \<Rightarrow> rs) @ [c])
          (replyMapOf cs)
      else replyMapOf cs)"
  by (simp add: replyMapOf_def firstPassStep_def Let_def split: prod.splits)

lemma distinct_threadMapOf: "distinct (map fst (threadMapOf cs))"
  by (induction cs rule: rev_induct) (simp_all add: threadMapOf_Nil threadMapOf_snoc distinct_update)

lemma distinct_replyMapOf: "distinct (map fst (replyMapOf cs))"
  by (induction cs rule: rev_induct) (simp_all add: replyMapOf_Nil replyMapOf_snoc distinct_update)

lemma lastRoot_snoc:
  "lastRoot (cs @ [c]) k = (if \<not> isReply c \<and> comment_id c = k then Some c else lastRoot cs k)"
  by (simp add: lastRoot_def)

lemma map_of_threadMapOf: "map_of (threadMapOf cs) k = map_option newThread (lastRoot cs k)"
proof (induction cs rule: rev_induct)
  case Nil
  show ?case by (simp add: threadMapOf_Nil lastRoot_def)
next
  case (snoc c cs)
  then show ?case by (simp add: threadMapOf_snoc lastRoot_snoc update_conv')
qed

lemma repliesTo_snoc:
  "repliesTo (cs @ [c]) k = (if isReply c \<and> replyKey c = k then repliesTo cs k @ [c] else repliesTo cs k)"
  by (simp add: repliesTo_def)

lemma map_of_replyMapOf:
  "map_of (replyMapOf cs) k = (if repliesTo cs k = [] then None else Some (repliesTo cs k))"
proof (induction cs arbitrary: k rule: rev_induct)
  case Nil
  show ?case by (simp add: replyMapOf_Nil repliesTo_def)
next
  case (snoc c cs)
  show ?case
  proof (cases "isReply c")
    case True
    then show ?thesis using snoc[of k] snoc[of "replyKey c"]
      by (simp add: replyMapOf_snoc repliesTo_snoc update_conv')
  next
    case False
    then show ?thesis using snoc[of k] by (simp add: replyMapOf_snoc repliesTo_snoc)
  qed
qed


subsection \<open>The second pass\<close>

lemma update_present:
  "distinct (map fst al) \<Longrightarrow>
   AList.update k v al = (if k \<in> fst ` set al then map (\<lambda>(k', t). (k', if k' = k then v else t)) al else al @ [(k, v)])"
proof (induction al)
  case Nil
  show ?case by simp
next
  case (Cons p al)
  obtain k' t where p: "p = (k', t)" by (cases p)
  show ?case
  proof (cases "k' = k")
    case True
    with Cons.prems p have "k \<notin> fst ` set al" by auto
    then have "map (\<lambda>(k', t). (k', if k' = k then v else t)) al = al"
      by (induction al) auto
    with True p show ?thesis by simp
  next
    case False
    with Cons p show ?thesis by auto
  qed
qed

lemma secondPassStep_map:
  assumes "distinct (map fst tm)"
  shows "secondPassStep gt (k, rs) tm =
         map (\<lambda>e. (fst e, if fst e = k then attachReplies gt rs (snd e) else snd e)) tm"
proof (cases "map_of tm k")
  case None
  then have "k \<notin> fst ` set tm" by (simp add: map_of_eq_None_iff)
  then have "map (\<lambda>e. (fst e, if fst e = k then attachReplies gt rs (snd e) else snd e)) tm = tm"
    by (induction tm) auto
  with None show ?thesis by (simp add: secondPassStep_def)
next
  case (Some t)
  then have "(k, t) \<in> set tm" by (rule map_of_SomeD)
  then have in_tm: "k \<in> fst ` set tm" by force
  have "map (\<lambda>(k', t'). (k', if k' = k then attachReplies gt rs t else t')) tm =
        map (\<lambda>e. (fst e, if fst e = k then attachReplies gt rs (snd e) else snd e)) tm"
  proof (rule map_cong[OF refl])
    fix e assume e: "e \<in> set tm"
    obtain k' t' where p: "e = (k', t')" by (cases e)
    show "(case e of (k', t') \<Rightarrow> (k', if k' = k then attachReplies gt rs t else t')) =
          (fst e, if fst e = k then attachReplies gt rs (snd e) else snd e)"
    proof (cases "k' = k")
      case True
      with e p assms have "map_of tm k = Some t'" by simp
      with Some have "t' = t" by simp
      with True p show ?thesis by simp
    next
      case False
      with p show ?thesis by simp
    qed
  qed
  with Some in_tm assms show ?thesis by (simp add: secondPassStep_def update_present)
qed

lemma secondPass_closed:
  "distinct (map fst rm) \<Longrightarrow> distinct (map fst tm) \<Longrightarrow>
   fold (secondPassStep gt) rm tm = map (attachAll gt rm) tm"
proof (induction rm arbitrary: tm)
  case Nil
  show ?case by (simp add: attachAll_def)
next
  case (Cons p rm)
  obtain k rs where p: "p = (k, rs)" by (cases p)
  let ?tm1 = "map (\<lambda>e. (fst e, if fst e = k then attachReplies gt rs (snd e) else snd e)) tm"
  have step: "secondPassStep gt (k, rs) tm = ?tm1" using Cons.prems(2) by (rule secondPassStep_map)
  have keys: "map fst ?tm1 = map fst tm" by (simp add: comp_def)
  from Cons.prems p have d: "distinct (map fst rm)" and nk: "map_of rm k = None"
    by (auto simp: map_of_eq_None_iff)
  have d1: "distinct (map fst ?tm1)" by (subst keys) (rule Cons.prems(2))
  have "fold (secondPassStep gt) rm ?tm1 = map (attachAll gt rm) ?tm1"
    by (rule Cons.IH[OF d d1])
  also have "\<dots> = map (attachAll gt ((k, rs) # rm)) tm"
    using nk by (simp add: attachAll_def comp_def split: option.splits)
  finally show ?case using p step by simp
qed


subsection \<open>The threads that are built\<close>

lemma buildThreads_closed:
  "buildThreads gt cs =
     sortBy byLine (map snd (map (attachAll gt (replyMapOf cs)) (threadMapOf cs)))"
proof -
  have "fold firstPassStep cs ([], []) = (threadMapOf cs, replyMapOf cs)"
    by (simp add: threadMapOf_def replyMapOf_def)
  then show ?thesis
    by (simp add: buildThreads_def secondPass_closed distinct_threadMapOf distinct_replyMapOf)
qed

lemma attachReplies_Nil: "attachReplies gt [] (newThread c) = newThread c"
  by (simp add: attachReplies_def newThread_def)

lemma lastRoot_SomeD:
  "lastRoot cs k = Some c \<Longrightarrow> c \<in> set cs \<and> \<not> isReply c \<and> comment_id c = k"
proof (induction cs rule: rev_induct)
  case Nil
  then show ?case by (simp add: lastRoot_def)
next
  case (snoc x xs)
  then show ?case by (auto simp: lastRoot_snoc split: if_splits)
qed

lemma lastRoot_None_iff:
  "lastRoot cs k = None \<longleftrightarrow> k \<notin> comment_id ` {c \<in> set cs. \<not> isReply c}"
  unfolding lastRoot_def by (auto simp: find_None_iff)

lemma threadMapOf_entry:
  assumes "e \<in> set (threadMapOf cs)"
  shows "\<exists>c. lastRoot cs (fst e) = Some c \<and> snd e = newThread c"
proof -
  have "(fst e, snd e) \<in> set (threadMapOf cs)" using assms by simp
  with distinct_threadMapOf have "map_of (threadMapOf cs) (fst e) = Some (snd e)"
    by (rule map_of_is_SomeI)
  then show ?thesis by (auto simp: map_of_threadMapOf)
qed

lemma attachAll_entry:
  assumes "e \<in> set (threadMapOf cs)"
  shows "snd (attachAll gt (replyMapOf cs) e) = finalThread gt cs (the (lastRoot cs (fst e)))"
proof -
  from threadMapOf_entry[OF assms] obtain c
    where c: "lastRoot cs (fst e) = Some c" and t: "snd e = newThread c" by blast
  from c have k: "comment_id c = fst e" by (simp add: lastRoot_SomeD)
  show ?thesis
    using c t k by (simp add: attachAll_def map_of_replyMapOf finalThread_def attachReplies_Nil)
qed

lemma buildThreads_final:
  "buildThreads gt cs =
     sortBy byLine (map (\<lambda>k. finalThread gt cs (the (lastRoot cs k))) (map fst (threadMapOf cs)))"
proof -
  have "map snd (map (attachAll gt (replyMapOf cs)) (threadMapOf cs)) =
        map (\<lambda>k. finalThread gt cs (the (lastRoot cs k))) (map fst (threadMapOf cs))"
    by (simp add: comp_def attachAll_entry cong: map_cong)
  then show ?thesis by (simp only: buildThreads_closed)
qed

lemma keys_threadMapOf:
  "set (map fst (threadMapOf cs)) = comment_id ` {c \<in> set cs. \<not> isReply c}"
proof -
  have "k \<in> set (map fst (threadMapOf cs)) \<longleftrightarrow> lastRoot cs k \<noteq> None" for k
  proof -
    have "k \<in> set (map fst (threadMapOf cs)) \<longleftrightarrow> map_of (threadMapOf cs) k \<noteq> None"
      by (simp add: map_of_eq_None_iff)
    then show ?thesis by (simp add: map_of_threadMapOf)
  qed
  then show ?thesis by (auto simp: lastRoot_None_iff)
qed

lemma in_buildThreads:
  "t \<in> set (buildThreads gt cs) \<longleftrightarrow>
     (\<exists>c. lastRoot cs (comment_id c) = Some c \<and> t = finalThread gt cs c)"
proof
  assume "t \<in> set (buildThreads gt cs)"
  then obtain k where k: "k \<in> set (map fst (threadMapOf cs))"
    and t: "t = finalThread gt cs (the (lastRoot cs k))"
    by (auto simp: buildThreads_final set_sortBy)
  from k obtain c where c: "lastRoot cs k = Some c"
    using keys_threadMapOf lastRoot_None_iff by (metis not_None_eq)
  then have "comment_id c = k" by (simp add: lastRoot_SomeD)
  with c t show "\<exists>c. lastRoot cs (comment_id c) = Some c \<and> t = finalThread gt cs c" by auto
next
  assume "\<exists>c. lastRoot cs (comment_id c) = Some c \<and> t = finalThread gt cs c"
  then obtain c where c: "lastRoot cs (comment_id c) = Some c" and t: "t = finalThread gt cs c"
    by blast
  from c have "comment_id c \<in> set (map fst (threadMapOf cs))"
    using keys_threadMapOf lastRoot_None_iff by (metis option.distinct(1))
  then have "finalThread gt cs (the (lastRoot cs (comment_id c))) \<in>
             set (map (\<lambda>k. finalThread gt cs (the (lastRoot cs k))) (map fst (threadMapOf cs)))"
    by (simp only: set_map) (rule imageI)
  with c t show "t \<in> set (buildThreads gt cs)"
    by (simp add: buildThreads_final set_sortBy)
qed

lemma finalThread_fields:
  "thread_id (finalThread gt cs c) = comment_id c"
  "rootComment (finalThread gt cs c) = c"
  "thread_line (finalThread gt cs c) = line c"
  "replies (finalThread gt cs c) = sortBy (byCreation gt) (repliesTo cs (comment_id c))"
  "participants (finalThread gt cs c) =
     fold addParticipant (sortBy (byCreation gt) (repliesTo cs (comment_id c))) [user c]"
  by (simp_all add: finalThread_def attachReplies_def newThread_def Let_def)

lemma distinct_thread_ids: "distinct (map thread_id (buildThreads gt cs))"
proof -
  have "map thread_id (map (\<lambda>k. finalThread gt cs (the (lastRoot cs k))) (map fst (threadMapOf cs)))
        = map fst (threadMapOf cs)"
  proof -
    have "thread_id (finalThread gt cs (the (lastRoot cs (fst e)))) = fst e"
      if "e \<in> set (threadMapOf cs)" for e
    proof -
      from threadMapOf_entry[OF that] obtain c where c: "lastRoot cs (fst e) = Some c" by blast
      then show ?thesis by (simp add: finalThread_fields lastRoot_SomeD)
    qed
    then show ?thesis by (simp add: comp_def cong: map_cong)
  qed
  then show ?thesis
    by (simp only: buildThreads_final distinct_map_sortBy distinct_threadMapOf)
qed

lemma length_buildThreads:
  "length (buildThreads gt cs) = card (comment_id ` {c \<in> set cs. \<not> isReply c})"
proof -
  have "length (buildThreads gt cs) = length (map fst (threadMapOf cs))"
    by (simp add: buildThreads_final length_sortBy)
  also have "\<dots> = card (set (map fst (threadMapOf cs)))"
    using distinct_threadMapOf by (simp only: distinct_card)
  finally show ?thesis by (simp only: keys_threadMapOf)
qed

subsection \<open>Replies and roots of the threads\<close>

lemma positive_byCreation:
  assumes "timeOf gt x \<noteq> NaN" "timeOf gt y \<noteq> NaN"
  shows "positive (byCreation gt x y) = (timeValue gt y < timeValue gt x)"
proof -
  from assms obtain a b where "timeOf gt x = Num a" "timeOf gt y = Num b"
    by (cases "timeOf gt x"; cases "timeOf gt y") auto
  then show ?thesis by (simp add: byCreation_def jsSub_def positive_def timeValue_def)
qed

lemma noTimestamp_epoch: "noTimestamp r \<Longrightarrow> timeOf gt r = Num 0"
  by (auto simp: noTimestamp_def timeOf_def)

lemma replies_of_thread:
  assumes "t \<in> set (buildThreads gt cs)"
  shows "replies t = sortBy (byCreation gt) (repliesTo cs (thread_id t))"
proof -
  from assms obtain c where "t = finalThread gt cs c" by (auto simp: in_buildThreads)
  then show ?thesis by (simp add: finalThread_fields)
qed

lemma replies_are_replies:
  assumes "t \<in> set (buildThreads gt cs)" "r \<in> set (replies t)"
  shows "r \<in> set cs \<and> isReply r \<and> replyKey r = thread_id t"
  using assms by (simp add: replies_of_thread set_sortBy repliesTo_def)

lemma root_of_thread:
  assumes "t \<in> set (buildThreads gt cs)"
  shows "thread_id t = comment_id (rootComment t) \<and> lastRoot cs (thread_id t) = Some (rootComment t)"
proof -
  from assms obtain c where "lastRoot cs (comment_id c) = Some c" "t = finalThread gt cs c"
    by (auto simp: in_buildThreads)
  then show ?thesis by (simp add: finalThread_fields)
qed








subsection \<open>Orphan replies\<close>




subsection \<open>Order of the replies\<close>

text \<open>
  Claim C5, as the code has it. When the timestamps of the replies are valid dates, the
  replies of every thread are sorted by time value ascending, a reply without
  \<open>createdAt\<close> (or with an empty one) counting as the epoch, time value 0. Such a reply
  therefore comes before every reply whose timestamp is after the epoch; a reply dated
  before the epoch comes before it.
\<close>

theorem replies_sorted_by_creation:
  assumes valid: "\<forall>c \<in> set cs. isReply c \<longrightarrow> timeOf getTime c \<noteq> NaN"
  shows "\<forall>t \<in> set (buildThreads getTime cs).
     sorted (map (timeValue getTime) (replies t)) \<and>
     (\<forall>r \<in> set (replies t). noTimestamp r \<longrightarrow> timeOf getTime r = Num 0) \<and>
     (\<forall>i j. i < length (replies t) \<and> j < length (replies t) \<and>
        noTimestamp (replies t ! i) \<and> 0 < timeValue getTime (replies t ! j) \<longrightarrow> i < j)"
proof
  fix t assume t: "t \<in> set (buildThreads getTime cs)"
  let ?rs = "repliesTo cs (thread_id t)"
  have r: "replies t = sortBy (byCreation getTime) ?rs" using t by (rule replies_of_thread)
  have "\<And>x. x \<in> set ?rs \<Longrightarrow> timeOf getTime x \<noteq> NaN"
    using valid by (simp add: repliesTo_def)
  then have s: "sorted (map (timeValue getTime) (replies t))"
    unfolding r by (intro sorted_sortBy positive_byCreation)
  have o: "i < j" if i: "i < length (replies t)" and j: "j < length (replies t)"
    and n: "noTimestamp (replies t ! i)" and p: "0 < timeValue getTime (replies t ! j)" for i j
  proof (rule ccontr)
    assume "\<not> i < j"
    then have "j \<le> i" by simp
    with s i have "map (timeValue getTime) (replies t) ! j \<le> map (timeValue getTime) (replies t) ! i"
      by (simp add: sorted_iff_nth_mono del: nth_map)
    with i j have "timeValue getTime (replies t ! j) \<le> timeValue getTime (replies t ! i)" by simp
    moreover have "timeValue getTime (replies t ! i) = 0"
      using n by (simp add: timeValue_def noTimestamp_epoch)
    ultimately show False using p by simp
  qed
  show "sorted (map (timeValue getTime) (replies t)) \<and>
     (\<forall>r \<in> set (replies t). noTimestamp r \<longrightarrow> timeOf getTime r = Num 0) \<and>
     (\<forall>i j. i < length (replies t) \<and> j < length (replies t) \<and>
        noTimestamp (replies t ! i) \<and> 0 < timeValue getTime (replies t ! j) \<longrightarrow> i < j)"
    using s o by (simp add: noTimestamp_epoch)
qed

theorem replies_sorted_by_creation_witness:
  "list_all (\<lambda>c. \<not> isReply c \<or> timeOf isoTime c \<noteq> NaN) timedReplies \<and>
   hd (buildThreads isoTime timedReplies) \<in> set (buildThreads isoTime timedReplies) \<and>
   map comment_id (replies (hd (buildThreads isoTime timedReplies))) = [3, 4, 2] \<and>
   sorted (map (timeValue isoTime) (replies (hd (buildThreads isoTime timedReplies)))) \<and>
   noTimestamp (replies (hd (buildThreads isoTime timedReplies)) ! 0) \<and>
   0 < timeValue isoTime (replies (hd (buildThreads isoTime timedReplies)) ! 1)"
proof -
  have v: "list_all (\<lambda>c. \<not> isReply c \<or> timeOf isoTime c \<noteq> NaN) timedReplies" by code_simp
  then have h: "\<forall>c \<in> set timedReplies. isReply c \<longrightarrow> timeOf isoTime c \<noteq> NaN"
    by (auto simp: list_all_iff)
  have m: "hd (buildThreads isoTime timedReplies) \<in> set (buildThreads isoTime timedReplies)"
    by code_simp
  have e: "map comment_id (replies (hd (buildThreads isoTime timedReplies))) = [3, 4, 2]"
    by code_simp
  have n: "noTimestamp (replies (hd (buildThreads isoTime timedReplies)) ! 0)" by code_simp
  have p: "0 < timeValue isoTime (replies (hd (buildThreads isoTime timedReplies)) ! 1)" by code_simp
  from replies_sorted_by_creation[OF h] m
  have "sorted (map (timeValue isoTime) (replies (hd (buildThreads isoTime timedReplies))))"
    by blast
  with v m e n p show ?thesis by blast
qed

theorem replies_pre_epoch_counterexample:
  "noTimestamp (replies (hd (buildThreads isoTime preEpochReplies)) ! 1) \<and>
   createdAt (replies (hd (buildThreads isoTime preEpochReplies)) ! 0) = Some ''1969-12-31T23:59:59Z'' \<and>
   length (replies (hd (buildThreads isoTime preEpochReplies))) = 2"
  by code_simp

subsection \<open>Participants\<close>

lemma firstOccurrences_snoc:
  "firstOccurrences (xs @ [x]) = (if x \<in> set xs then firstOccurrences xs else firstOccurrences xs @ [x])"
  by (simp add: firstOccurrences_def)

lemma set_firstOccurrences: "set (firstOccurrences xs) = set xs"
  by (simp add: firstOccurrences_def)

lemma distinct_firstOccurrences: "distinct (firstOccurrences xs)"
  by (simp add: firstOccurrences_def)

lemma fold_addParticipant:
  "distinct ps \<Longrightarrow> fold addParticipant rs ps = firstOccurrences (ps @ map user rs)"
proof (induction rs rule: rev_induct)
  case Nil
  then show ?case by (simp add: firstOccurrences_def distinct_remdups_id)
next
  case (snoc r rs)
  have "firstOccurrences (ps @ map user (rs @ [r])) = firstOccurrences ((ps @ map user rs) @ [user r])"
    by simp
  also have "\<dots> = addParticipant r (firstOccurrences (ps @ map user rs))"
    by (simp only: firstOccurrences_snoc addParticipant_def set_firstOccurrences)
  finally show ?case using snoc by simp
qed

lemma hd_firstOccurrences: "firstOccurrences (x # xs) = x # firstOccurrences (filter (\<lambda>y. y \<noteq> x) xs)"
proof (induction xs rule: rev_induct)
  case Nil
  show ?case by (simp add: firstOccurrences_def)
next
  case (snoc y ys)
  have "firstOccurrences (x # ys @ [y]) = firstOccurrences ((x # ys) @ [y])" by simp
  also have "\<dots> = (if y \<in> set (x # ys) then firstOccurrences (x # ys) else firstOccurrences (x # ys) @ [y])"
    by (rule firstOccurrences_snoc)
  finally show ?case using snoc by (auto simp: firstOccurrences_snoc)
qed

text \<open>
  Claim C6. In every thread that \<open>buildThreads\<close> produces, \<open>participants\<close> has no
  duplicate, its first entry is the author of the root comment, and it lists the root
  author followed by the authors of the thread's replies, each at its first appearance
  in the order of \<open>replies\<close>.
\<close>

theorem participants_distinct_root_first:
  "\<forall>t \<in> set (buildThreads getTime cs).
     distinct (participants t) \<and>
     participants t \<noteq> [] \<and>
     hd (participants t) = user (rootComment t) \<and>
     participants t = firstOccurrences (user (rootComment t) # map user (replies t))"
proof
  fix t assume "t \<in> set (buildThreads getTime cs)"
  then obtain c where t: "t = finalThread getTime cs c" by (auto simp: in_buildThreads)
  have p: "participants t = firstOccurrences (user (rootComment t) # map user (replies t))"
    unfolding t by (simp add: finalThread_fields fold_addParticipant)
  then have "participants t = user (rootComment t) #
      firstOccurrences (filter (\<lambda>y. y \<noteq> user (rootComment t)) (map user (replies t)))"
    by (simp only: hd_firstOccurrences)
  then have "participants t \<noteq> [] \<and> hd (participants t) = user (rootComment t)" by simp
  moreover have "distinct (participants t)" by (simp only: p distinct_firstOccurrences)
  ultimately show "distinct (participants t) \<and> participants t \<noteq> [] \<and>
     hd (participants t) = user (rootComment t) \<and>
     participants t = firstOccurrences (user (rootComment t) # map user (replies t))"
    using p by blast
qed

theorem participants_distinct_root_first_witness:
  "hd (buildThreads isoTime scenario) \<in> set (buildThreads isoTime scenario) \<and>
   length (buildThreads isoTime scenario) = 1 \<and>
   map comment_id (replies (hd (buildThreads isoTime scenario))) = [2, 3] \<and>
   participants (hd (buildThreads isoTime scenario)) = [''a'', ''b''] \<and>
   distinct (participants (hd (buildThreads isoTime scenario))) \<and>
   hd (participants (hd (buildThreads isoTime scenario))) =
     user (rootComment (hd (buildThreads isoTime scenario)))"
proof -
  have m: "hd (buildThreads isoTime scenario) \<in> set (buildThreads isoTime scenario)" by code_simp
  have l: "length (buildThreads isoTime scenario) = 1" by code_simp
  have r: "map comment_id (replies (hd (buildThreads isoTime scenario))) = [2, 3]" by code_simp
  have p: "participants (hd (buildThreads isoTime scenario)) = [''a'', ''b'']" by code_simp
  from participants_distinct_root_first[of isoTime scenario] m
  have "distinct (participants (hd (buildThreads isoTime scenario))) \<and>
        hd (participants (hd (buildThreads isoTime scenario))) =
          user (rootComment (hd (buildThreads isoTime scenario)))"
    by blast
  with m l r p show ?thesis by blast
qed

subsection \<open>Root cs that share an id\<close>

text \<open>
  Claim C10. The threads that \<open>buildThreads\<close> produces have distinct ids, one for each
  id of a root comment. The root comment of a thread is the last root comment of the
  input with that id; an earlier root comment with the same id is the root comment of
  no thread and among the replies of none, and is not counted: there are as many
  threads as distinct ids of root cs.
\<close>

theorem one_thread_per_comment_id:
  "distinct (map thread_id (buildThreads getTime cs)) \<and>
   length (buildThreads getTime cs) =
     length (remdups (map comment_id (filter (\<lambda>c. \<not> isReply c) cs))) \<and>
   (\<forall>t \<in> set (buildThreads getTime cs).
      thread_id t = comment_id (rootComment t) \<and>
      lastRoot cs (thread_id t) = Some (rootComment t) \<and>
      (\<forall>r \<in> set (replies t). isReply r)) \<and>
   (\<forall>c \<in> set cs. \<not> isReply c \<and> lastRoot cs (comment_id c) \<noteq> Some c \<longrightarrow>
      (\<forall>t \<in> set (buildThreads getTime cs). rootComment t \<noteq> c \<and> c \<notin> set (replies t)))"
proof -
  have "comment_id ` {c \<in> set cs. \<not> isReply c} =
        set (map comment_id (filter (\<lambda>c. \<not> isReply c) cs))" by auto
  then have n: "length (buildThreads getTime cs) =
     length (remdups (map comment_id (filter (\<lambda>c. \<not> isReply c) cs)))"
    by (simp only: length_buildThreads length_remdups_card_conv)
  have a: "\<forall>t \<in> set (buildThreads getTime cs).
      thread_id t = comment_id (rootComment t) \<and>
      lastRoot cs (thread_id t) = Some (rootComment t) \<and>
      (\<forall>r \<in> set (replies t). isReply r)"
    using root_of_thread replies_are_replies by blast
  have b: "\<forall>c \<in> set cs. \<not> isReply c \<and> lastRoot cs (comment_id c) \<noteq> Some c \<longrightarrow>
      (\<forall>t \<in> set (buildThreads getTime cs). rootComment t \<noteq> c \<and> c \<notin> set (replies t))"
    using root_of_thread replies_are_replies by metis
  show ?thesis using distinct_thread_ids n a b by blast
qed

theorem one_thread_per_comment_id_witness:
  "comment 1 ''a'' 10 None None \<in> set sharedRootId \<and>
   \<not> isReply (comment 1 ''a'' 10 None None) \<and>
   lastRoot sharedRootId (comment_id (comment 1 ''a'' 10 None None)) \<noteq> Some (comment 1 ''a'' 10 None None) \<and>
   hd (buildThreads isoTime sharedRootId) \<in> set (buildThreads isoTime sharedRootId) \<and>
   map thread_id (buildThreads isoTime sharedRootId) = [1, 2] \<and>
   rootComment (hd (buildThreads isoTime sharedRootId)) = comment 1 ''z'' 10 None None \<and>
   rootComment (hd (buildThreads isoTime sharedRootId)) \<noteq> comment 1 ''a'' 10 None None \<and>
   distinct (map thread_id (buildThreads isoTime sharedRootId))"
proof -
  have a: "comment 1 ''a'' 10 None None \<in> set sharedRootId" by code_simp
  have b: "\<not> isReply (comment 1 ''a'' 10 None None)" by code_simp
  have c: "lastRoot sharedRootId (comment_id (comment 1 ''a'' 10 None None)) \<noteq>
           Some (comment 1 ''a'' 10 None None)" by code_simp
  have m: "hd (buildThreads isoTime sharedRootId) \<in> set (buildThreads isoTime sharedRootId)"
    by code_simp
  have i: "map thread_id (buildThreads isoTime sharedRootId) = [1, 2]" by code_simp
  have z: "rootComment (hd (buildThreads isoTime sharedRootId)) = comment 1 ''z'' 10 None None"
    by code_simp
  from one_thread_per_comment_id[of isoTime sharedRootId] a b c m
  have "rootComment (hd (buildThreads isoTime sharedRootId)) \<noteq> comment 1 ''a'' 10 None None"
    by blast
  moreover from one_thread_per_comment_id[of isoTime sharedRootId]
  have "distinct (map thread_id (buildThreads isoTime sharedRootId))" by blast
  ultimately show ?thesis using a b c m i z by blast
qed


section \<open>Properties of the filtered views and counts\<close>

lemma foldl_count:
  "foldl (\<lambda>sum t. sum + 1 + int (length (replies t))) a ts =
   a + sum_list (map (\<lambda>t. 1 + int (length (replies t))) ts)"
  by (induction ts arbitrary: a) simp_all

lemma countComments_sum:
  "countComments ts = sum_list (map (\<lambda>t. 1 + int (length (replies t))) ts)"
  by (simp add: countComments_def foldl_count)

lemma fold_count:
  "fold (\<lambda>thread count. count + 1 + int (length (replies thread))) ts a = a + countComments ts"
  by (induction ts arbitrary: a) (simp_all add: countComments_sum)

lemma fold_total:
  "fold (\<lambda>ts count. fold (\<lambda>thread count. count + 1 + int (length (replies thread))) ts count) tss a
   = a + sum_list (map countComments tss)"
  by (induction tss arbitrary: a) (simp_all add: fold_count)

lemma getTotalCommentCount_sum:
  "getTotalCommentCount this = sum_list (map (\<lambda>e. countComments (snd e)) (provider_threads this))"
  by (simp add: getTotalCommentCount_def fold_total comp_def)

lemma fold_threads:
  "fold (\<lambda>ts count. count + int (length ts)) tss a = a + sum_list (map (\<lambda>ts. int (length ts)) tss)"
  by (induction tss arbitrary: a) simp_all

lemma getThreadCount_sum:
  "getThreadCount this = sum_list (map (\<lambda>e. int (length (snd e))) (provider_threads this))"
  by (simp add: getThreadCount_def fold_threads comp_def)

lemma fileItemStep_visible:
  "fileItemStep opts e items = (if visibleEntry opts e then items @ [itemOf opts e] else items)"
  by (cases e) (simp add: fileItemStep_def visibleEntry_def itemOf_def Let_def)

lemma fold_fileItemStep:
  "fold (fileItemStep opts) es items = items @ map (itemOf opts) (filter (visibleEntry opts) es)"
  by (induction es arbitrary: items) (simp_all add: fileItemStep_visible)

lemma getFileItems_set:
  "set (getFileItems lc this) =
   itemOf (filterOptions this) ` {e \<in> set (provider_threads this). visibleEntry (filterOptions this) e}"
  by (simp add: getFileItems_def set_sortBy fold_fileItemStep)

lemma getFileItems_sum:
  "sum_list (map f (getFileItems lc this)) =
   (sum_list (map (\<lambda>e. f (itemOf (filterOptions this) e))
      (filter (visibleEntry (filterOptions this)) (provider_threads this))) :: int)"
  by (simp add: getFileItems_def sum_sortBy fold_fileItemStep comp_def)

lemma sum_filter_zero:
  "(\<And>x. x \<in> set xs \<Longrightarrow> \<not> P x \<Longrightarrow> f x = (0::int)) \<Longrightarrow>
   sum_list (map f (filter P xs)) = sum_list (map f xs)"
  by (induction xs) auto

lemma sum_cong: "(\<And>x. x \<in> set xs \<Longrightarrow> f x = g x) \<Longrightarrow> sum_list (map f xs) = (sum_list (map g xs) :: int)"
  by (induction xs) auto

lemma filterThreads_all: "(\<And>t. t \<in> set ts \<Longrightarrow> keepThread opts t) \<Longrightarrow> filterThreads opts ts = ts"
  by (simp add: filterThreads_def)

lemma filterThreads_none: "(\<And>t. t \<in> set ts \<Longrightarrow> \<not> keepThread opts t) \<Longrightarrow> filterThreads opts ts = []"
  by (simp add: filterThreads_def)

lemma counts_match_all:
  assumes all: "\<forall>e \<in> set (provider_threads this). \<forall>t \<in> set (snd e).
      keepThread (filterOptions this) t \<and> keepFile (filterOptions this) (fst e)"
  shows "sum_list (map commentCount (getFileItems lc this)) = getTotalCommentCount this"
    and "sum_list (map (\<lambda>i. int (length (threads i))) (getFileItems lc this)) = getThreadCount this"
proof -
  let ?opts = "filterOptions this"
  have ft: "filterThreads ?opts (snd e) = snd e" if "e \<in> set (provider_threads this)" for e
    using all that by (intro filterThreads_all) blast
  have vis: "snd e = []" if "e \<in> set (provider_threads this)" "\<not> visibleEntry ?opts e" for e
  proof (rule ccontr)
    assume ne: "snd e \<noteq> []"
    then obtain t where "t \<in> set (snd e)" by (cases "snd e") auto
    with all that(1) have "keepFile ?opts (fst e)" by blast
    with that ne ft show False by (simp add: visibleEntry_def)
  qed
  have "sum_list (map commentCount (getFileItems lc this)) =
        sum_list (map (\<lambda>e. countComments (filterThreads ?opts (snd e)))
          (filter (visibleEntry ?opts) (provider_threads this)))"
    by (simp add: getFileItems_sum itemOf_def)
  also have "\<dots> = sum_list (map (\<lambda>e. countComments (snd e))
          (filter (visibleEntry ?opts) (provider_threads this)))"
    by (rule sum_cong) (simp add: ft)
  also have "\<dots> = sum_list (map (\<lambda>e. countComments (snd e)) (provider_threads this))"
    by (rule sum_filter_zero) (simp add: vis countComments_def)
  finally show "sum_list (map commentCount (getFileItems lc this)) = getTotalCommentCount this"
    by (simp only: getTotalCommentCount_sum)
  have "sum_list (map (\<lambda>i. int (length (threads i))) (getFileItems lc this)) =
        sum_list (map (\<lambda>e. int (length (filterThreads ?opts (snd e))))
          (filter (visibleEntry ?opts) (provider_threads this)))"
    by (simp add: getFileItems_sum itemOf_def)
  also have "\<dots> = sum_list (map (\<lambda>e. int (length (snd e)))
          (filter (visibleEntry ?opts) (provider_threads this)))"
    by (rule sum_cong) (simp add: ft)
  also have "\<dots> = sum_list (map (\<lambda>e. int (length (snd e))) (provider_threads this))"
    by (rule sum_filter_zero) (simp add: vis)
  finally show "sum_list (map (\<lambda>i. int (length (threads i))) (getFileItems lc this)) = getThreadCount this"
    by (simp only: getThreadCount_sum)
qed

lemma counts_match_none:
  assumes none: "\<forall>e \<in> set (provider_threads this). \<forall>t \<in> set (snd e).
      \<not> (keepThread (filterOptions this) t \<and> keepFile (filterOptions this) (fst e))"
  shows "getFileItems lc this = []"
proof -
  let ?opts = "filterOptions this"
  have "\<not> visibleEntry ?opts e" if e: "e \<in> set (provider_threads this)" for e
  proof
    assume v: "visibleEntry ?opts e"
    then obtain t where t: "t \<in> set (filterThreads ?opts (snd e))"
      by (cases "filterThreads ?opts (snd e)") (auto simp: visibleEntry_def)
    then have "t \<in> set (snd e)" "keepThread ?opts t" by (simp_all add: filterThreads_def)
    moreover from v have "keepFile ?opts (fst e)" by (simp add: visibleEntry_def)
    ultimately show False using none e by blast
  qed
  then have "filter (visibleEntry ?opts) (provider_threads this) = []" by (simp add: filter_empty_conv)
  then show ?thesis by (simp add: getFileItems_def fold_fileItemStep)
qed

text \<open>
  Claim C9, as the code has it. The counts that follow the active filter are those of
  the file items of the tree view: each item holds the threads of its file that pass
  \<open>filterThreads\<close>, and its comment count is the sum of 1 plus the number of replies over
  these threads. When the active filter matches every thread, the comment counts of the
  items add up to \<open>getTotalCommentCount\<close> and their numbers of threads to
  \<open>getThreadCount\<close>; when it matches no thread, there is no item and both sums are zero.
  \<open>getTotalCommentCount\<close> and \<open>getThreadCount\<close> themselves count all threads, whatever
  the active filter.
\<close>

theorem counts_follow_filter:
  "(\<forall>i \<in> set (getFileItems localeCompare this).
      (\<exists>ts. (filePath i, ts) \<in> set (provider_threads this) \<and>
            threads i = filterThreads (filterOptions this) ts) \<and>
      commentCount i = sum_list (map (\<lambda>t. 1 + int (length (replies t))) (threads i))) \<and>
   ((\<forall>e \<in> set (provider_threads this). \<forall>t \<in> set (snd e).
        keepThread (filterOptions this) t \<and> keepFile (filterOptions this) (fst e)) \<longrightarrow>
      sum_list (map commentCount (getFileItems localeCompare this)) = getTotalCommentCount this \<and>
      sum_list (map (\<lambda>i. int (length (threads i))) (getFileItems localeCompare this)) =
        getThreadCount this) \<and>
   ((\<forall>e \<in> set (provider_threads this). \<forall>t \<in> set (snd e).
        \<not> (keepThread (filterOptions this) t \<and> keepFile (filterOptions this) (fst e))) \<longrightarrow>
      getFileItems localeCompare this = [] \<and>
      sum_list (map commentCount (getFileItems localeCompare this)) = 0 \<and>
      sum_list (map (\<lambda>i. int (length (threads i))) (getFileItems localeCompare this)) = 0) \<and>
   getTotalCommentCount (this\<lparr>filterOptions := opts\<rparr>) = getTotalCommentCount this \<and>
   getThreadCount (this\<lparr>filterOptions := opts\<rparr>) = getThreadCount this"
proof -
  have a: "\<forall>i \<in> set (getFileItems localeCompare this).
      (\<exists>ts. (filePath i, ts) \<in> set (provider_threads this) \<and>
            threads i = filterThreads (filterOptions this) ts) \<and>
      commentCount i = sum_list (map (\<lambda>t. 1 + int (length (replies t))) (threads i))"
  proof
    fix i assume "i \<in> set (getFileItems localeCompare this)"
    then obtain e where e: "e \<in> set (provider_threads this)" and i: "i = itemOf (filterOptions this) e"
      by (auto simp: getFileItems_set)
    from e have "(filePath i, snd e) \<in> set (provider_threads this) \<and>
            threads i = filterThreads (filterOptions this) (snd e)"
      unfolding i by (simp add: itemOf_def)
    then have "\<exists>ts. (filePath i, ts) \<in> set (provider_threads this) \<and>
            threads i = filterThreads (filterOptions this) ts" by blast
    moreover have "commentCount i = sum_list (map (\<lambda>t. 1 + int (length (replies t))) (threads i))"
      unfolding i by (simp add: itemOf_def countComments_sum)
    ultimately show "(\<exists>ts. (filePath i, ts) \<in> set (provider_threads this) \<and>
            threads i = filterThreads (filterOptions this) ts) \<and>
      commentCount i = sum_list (map (\<lambda>t. 1 + int (length (replies t))) (threads i))" by blast
  qed
  have c: "getFileItems localeCompare this = [] \<and>
      sum_list (map commentCount (getFileItems localeCompare this)) = 0 \<and>
      sum_list (map (\<lambda>i. int (length (threads i))) (getFileItems localeCompare this)) = 0"
    if "\<forall>e \<in> set (provider_threads this). \<forall>t \<in> set (snd e).
        \<not> (keepThread (filterOptions this) t \<and> keepFile (filterOptions this) (fst e))"
    using counts_match_none[OF that] by simp
  have d: "getTotalCommentCount (this\<lparr>filterOptions := opts\<rparr>) = getTotalCommentCount this"
    by (simp add: getTotalCommentCount_def)
  have e: "getThreadCount (this\<lparr>filterOptions := opts\<rparr>) = getThreadCount this"
    by (simp add: getThreadCount_def)
  show ?thesis using a counts_match_all c d e by blast
qed

theorem counts_follow_filter_witness:
  "list_all (\<lambda>e. list_all (\<lambda>t. keepThread noFilter t \<and> keepFile noFilter (fst e)) (snd e)) twoFiles \<and>
   hd (getFileItems lengthCompare (provider noFilter)) \<in> set (getFileItems lengthCompare (provider noFilter)) \<and>
   commentCount (hd (getFileItems lengthCompare (provider noFilter))) = 3 \<and>
   map commentCount (getFileItems lengthCompare (provider noFilter)) = [3, 1] \<and>
   sum_list (map commentCount (getFileItems lengthCompare (provider noFilter))) = 4 \<and>
   getTotalCommentCount (provider noFilter) = 4 \<and>
   getThreadCount (provider noFilter) = 3 \<and>
   list_all (\<lambda>e. list_all (\<lambda>t. \<not> keepThread (byReviewer ''carol'') t) (snd e)) twoFiles \<and>
   getFileItems lengthCompare (provider (byReviewer ''carol'')) = [] \<and>
   map commentCount (getFileItems lengthCompare (provider (byReviewer ''bob''))) = [3]"
proof -
  have a: "list_all (\<lambda>e. list_all (\<lambda>t. keepThread noFilter t \<and> keepFile noFilter (fst e)) (snd e)) twoFiles"
    by code_simp
  then have h0: "\<forall>e \<in> set (provider_threads (provider noFilter)). \<forall>t \<in> set (snd e).
      keepThread (filterOptions (provider noFilter)) t \<and> keepFile (filterOptions (provider noFilter)) (fst e)"
    by (simp add: provider_def list_all_iff)
  have n: "list_all (\<lambda>e. list_all (\<lambda>t. \<not> keepThread (byReviewer ''carol'') t) (snd e)) twoFiles"
    by code_simp
  then have h1: "\<forall>e \<in> set (provider_threads (provider (byReviewer ''carol''))). \<forall>t \<in> set (snd e).
      \<not> (keepThread (filterOptions (provider (byReviewer ''carol''))) t \<and>
         keepFile (filterOptions (provider (byReviewer ''carol''))) (fst e))"
    by (simp add: provider_def list_all_iff)
  have m: "hd (getFileItems lengthCompare (provider noFilter)) \<in> set (getFileItems lengthCompare (provider noFilter))"
    by code_simp
  have c: "map commentCount (getFileItems lengthCompare (provider noFilter)) = [3, 1]" by code_simp
  have c1: "commentCount (hd (getFileItems lengthCompare (provider noFilter))) = 3" by code_simp
  have t: "getTotalCommentCount (provider noFilter) = 4" by code_simp
  have k: "getThreadCount (provider noFilter) = 3" by code_simp
  have b: "map commentCount (getFileItems lengthCompare (provider (byReviewer ''bob''))) = [3]" by code_simp
  from counts_follow_filter[of lengthCompare "provider noFilter"] h0
  have "sum_list (map commentCount (getFileItems lengthCompare (provider noFilter))) =
        getTotalCommentCount (provider noFilter)" by blast
  with t have s: "sum_list (map commentCount (getFileItems lengthCompare (provider noFilter))) = 4"
    by simp
  from counts_follow_filter[of lengthCompare "provider (byReviewer ''carol'')"] h1
  have e: "getFileItems lengthCompare (provider (byReviewer ''carol'')) = []" by blast
  from a n m c c1 s t k e b show ?thesis by blast
qed

theorem total_count_ignores_filter_counterexample:
  "filterThreads (byReviewer ''carol'') (snd (twoFiles ! 0)) = [] \<and>
   filterThreads (byReviewer ''carol'') (snd (twoFiles ! 1)) = [] \<and>
   length twoFiles = 2 \<and>
   getTotalCommentCount (provider (byReviewer ''carol'')) = 4 \<and>
   getThreadCount (provider (byReviewer ''carol'')) = 3"
  by code_simp


section \<open>Properties of the fetch client\<close>

subsection \<open>The retry delay\<close>













subsection \<open>The credential check\<close>

text \<open>
  Claim C3. The credential is \<open>token || config.githubToken\<close>. It fails the local
  validation exactly when it is empty or all white space, or has none of the known
  prefixes and fewer than 20 characters. When it is absent (empty) or fails the
  validation, the fetch returns \<open>success = false\<close> with no comments and one of three
  fixed error messages, and has no effect: no request is sent and there is no wait.
\<close>

theorem invalid_credential_no_request:
  "(valid (validateToken t) \<longleftrightarrow>
      \<not> (list_all isWhiteSpace t \<or> (\<not> hasValidPrefix t \<and> length t < 20))) \<and>
   (authTokenOf token githubToken = [] \<or> \<not> valid (validateToken (authTokenOf token githubToken)) \<longrightarrow>
      success (fst (fetchPRCommentsWithRetry githubToken api owner' repo' prNumber token)) = False \<and>
      comments (fst (fetchPRCommentsWithRetry githubToken api owner' repo' prNumber token)) = [] \<and>
      error (fst (fetchPRCommentsWithRetry githubToken api owner' repo' prNumber token)) \<in>
        {Some ''GitHub token is not configured. Please set prComments.githubToken in settings.'',
         Some ''GitHub token is empty'',
         Some ''Token appears too short to be valid''} \<and>
      snd (fetchPRCommentsWithRetry githubToken api owner' repo' prNumber token) = [])"
proof -
  have a: "valid (validateToken t) \<longleftrightarrow>
      \<not> (list_all isWhiteSpace t \<or> (\<not> hasValidPrefix t \<and> length t < 20))"
    by (auto simp: validateToken_def)
  have b: "success (fst (fetchPRCommentsWithRetry githubToken api owner' repo' prNumber token)) = False \<and>
      comments (fst (fetchPRCommentsWithRetry githubToken api owner' repo' prNumber token)) = [] \<and>
      error (fst (fetchPRCommentsWithRetry githubToken api owner' repo' prNumber token)) \<in>
        {Some ''GitHub token is not configured. Please set prComments.githubToken in settings.'',
         Some ''GitHub token is empty'',
         Some ''Token appears too short to be valid''} \<and>
      snd (fetchPRCommentsWithRetry githubToken api owner' repo' prNumber token) = []"
    if "authTokenOf token githubToken = [] \<or> \<not> valid (validateToken (authTokenOf token githubToken))"
  proof (cases "authTokenOf token githubToken = []")
    case True
    then show ?thesis by (simp add: fetchPRCommentsWithRetry_def failure_def)
  next
    case False
    with that have n: "\<not> valid (validateToken (authTokenOf token githubToken))" by simp
    then have "message (validateToken (authTokenOf token githubToken)) \<in>
        {Some ''GitHub token is empty'', Some ''Token appears too short to be valid''}"
      by (simp add: validateToken_def split: if_splits)
    with False n show ?thesis by (simp add: fetchPRCommentsWithRetry_def Let_def)
  qed
  show ?thesis using a b by blast
qed

theorem invalid_credential_no_request_witness:
  "authTokenOf (Some ''short'') [] = ''short'' \<and>
   valid (validateToken ''short'') = False \<and>
   fetchPRCommentsWithRetry [] (serverErrorThen 401) ''octo'' ''repo'' 42 (Some ''short'') =
     (failure ''Token appears too short to be valid'', []) \<and>
   authTokenOf None [] = [] \<and>
   snd (fetchPRCommentsWithRetry [] (serverErrorThen 401) ''octo'' ''repo'' 42 None) = [] \<and>
   success (fst (fetchPRCommentsWithRetry [] (serverErrorThen 401) ''octo'' ''repo'' 42 None)) = False \<and>
   valid (validateToken ''ghp_token'') = True"
proof -
  have a: "authTokenOf (Some ''short'') [] = ''short''" by code_simp
  have v: "valid (validateToken ''short'') = False" by code_simp
  have r: "fetchPRCommentsWithRetry [] (serverErrorThen 401) ''octo'' ''repo'' 42 (Some ''short'') =
     (failure ''Token appears too short to be valid'', [])" by code_simp
  have n: "authTokenOf None [] = []" by code_simp
  have g: "valid (validateToken ''ghp_token'') = True" by code_simp
  from n invalid_credential_no_request[where token = None and githubToken = "[]"
      and api = "serverErrorThen 401" and owner' = "''octo''" and repo' = "''repo''" and prNumber = 42]
  have "success (fst (fetchPRCommentsWithRetry [] (serverErrorThen 401) ''octo'' ''repo'' 42 None)) = False \<and>
        snd (fetchPRCommentsWithRetry [] (serverErrorThen 401) ''octo'' ''repo'' 42 None) = []"
    by blast
  with a v r n g show ?thesis by blast
qed

subsection \<open>Failures that end the fetch\<close>












end
